theory Spec2Isabelle
  imports Complex_Main "HOL-Library.Log_Nat"
begin

section \<open>Values of type double\<close>

text \<open>
  The program computes with C++ \<open>double\<close>. For its control flow and its formulas (which
  branch is taken, which terms are added, which divisor is used) a finite double is
  idealised as a real number (no rounding, no overflow, no underflow); the one property
  that is about rounding itself, the round trip of differencing and integration, is stated
  with rounded operations, defined further below. \<open>NonFinite\<close> stands for a NaN or an infinity,
  which in the idealisation only arises from a division by zero. The sign of a zero is
  not modelled, so \<open>x / 0\<close> is not resolved further into NaN, plus or minus infinity.
  In every operation below a non-finite operand gives a non-finite result, which is what
  IEEE arithmetic does for addition, subtraction, multiplication, \<open>fabs\<close> and \<open>sqrt\<close>, and
  for division as long as the divisor is not an infinity (the program never divides by
  one: its divisors are element counts, input samples and the recursion's error terms,
  and an error term is finite or NaN).
  Input series (the training data, the validation prices) are finite and are typed
  \<open>real list\<close>; everything computed from them is typed \<open>double\<close>.
\<close>

datatype double = Fin real | NonFinite

fun dadd :: "double \<Rightarrow> double \<Rightarrow> double" where
  "dadd (Fin x) (Fin y) = Fin (x + y)"
| "dadd _ _ = NonFinite"

fun dsub :: "double \<Rightarrow> double \<Rightarrow> double" where
  "dsub (Fin x) (Fin y) = Fin (x - y)"
| "dsub _ _ = NonFinite"

fun dmul :: "double \<Rightarrow> double \<Rightarrow> double" where
  "dmul (Fin x) (Fin y) = Fin (x * y)"
| "dmul _ _ = NonFinite"

fun ddiv :: "double \<Rightarrow> double \<Rightarrow> double" where
  "ddiv (Fin x) (Fin y) = (if y = 0 then NonFinite else Fin (x / y))"
| "ddiv _ _ = NonFinite"

text \<open>\<open>x == 0.0\<close>: false for a NaN and for an infinity.\<close>

fun is_zero :: "double \<Rightarrow> bool" where
  "is_zero (Fin x) = (x = 0)"
| "is_zero NonFinite = False"

fun dfabs :: "double \<Rightarrow> double" where
  "dfabs (Fin x) = Fin \<bar>x\<bar>"
| "dfabs NonFinite = NonFinite"

fun dsqrt :: "double \<Rightarrow> double" where
  "dsqrt (Fin x) = (if x < 0 then NonFinite else Fin (sqrt x))"
| "dsqrt NonFinite = NonFinite"

subsection \<open>Rounded operations\<close>

text \<open>
  A \<open>double\<close> operation returns the exact result rounded to the nearest binary64 value, ties
  to the even significand (IEEE 754, the default rounding mode). \<open>rne\<close> rounds a real to the
  nearest integer, ties to even. \<open>exponent2 x\<close> is the binary exponent of \<open>x \<noteq> 0\<close>, the \<open>e\<close>
  with \<open>2^e \<le> |x| < 2^(e+1)\<close>. A binary64 value with exponent \<open>e\<close> is a multiple of
  \<open>2^(e - 52)\<close> (53 significant bits), and of \<open>2^(-1074)\<close> below the normal range
  (\<open>e < -1022\<close>); a result that rounds to \<open>2^1024\<close> or beyond overflows to an infinity.
\<close>

definition rne :: "real \<Rightarrow> int" where
  "rne y =
     (let f = \<lfloor>y\<rfloor>; d = y - of_int f
      in if d < 1 / 2 then f else if 1 / 2 < d then f + 1 else if even f then f else f + 1)"

definition exponent2 :: "real \<Rightarrow> int" where
  "exponent2 x =
     (if 1 \<le> \<bar>x\<bar> then bitlen \<lfloor>\<bar>x\<bar>\<rfloor> - 1 else - bitlen (\<lceil>1 / \<bar>x\<bar>\<rceil> - 1))"

definition round_double :: "real \<Rightarrow> double" where
  "round_double x =
     (if x = 0 then Fin 0
      else
        let q = 2 powi (max (exponent2 x) (- 1022) - 52);
            r = of_int (rne (x / q)) * q
        in if 2 ^ 1024 \<le> \<bar>r\<bar> then NonFinite else Fin r)"




section \<open>The AR model (ARModel.h, ARModel.cpp)\<close>

record ARModel =
  data_m :: "real list"
  order_m :: int
  coefficients_m :: "double list"
  autocorrelation_m :: "double list"

text \<open>
  The members \<open>data_\<close>, \<open>order_\<close>, \<open>coefficients_\<close> and \<open>autocorrelation_\<close> are the
  fields \<open>data_m\<close>, \<open>order_m\<close>, \<open>coefficients_m\<close> and \<open>autocorrelation_m\<close> (a name cannot
  end with an underscore here). The constructor stores the data and the order; both
  vectors start empty.
\<close>

definition ARModel_init :: "real list \<Rightarrow> int \<Rightarrow> ARModel" where
  "ARModel_init d p =
     \<lparr>data_m = d, order_m = p, coefficients_m = [], autocorrelation_m = []\<rparr>"

text \<open>\<open>std::vector::resize(n, v)\<close>: keep the first \<open>n\<close> entries, pad with \<open>v\<close>.\<close>

definition resize :: "'a list \<Rightarrow> nat \<Rightarrow> 'a \<Rightarrow> 'a list" where
  "resize xs n v = take n xs @ replicate (n - length xs) v"

text \<open>
  The inner loop of \<open>computeAutocorrelation\<close>:
  \<open>for (i = lag; i < n; ++i) sum += data_[i] * data_[i - lag]\<close>.
\<close>

definition lagSum :: "real list \<Rightarrow> nat \<Rightarrow> double" where
  "lagSum d lag =
     fold (\<lambda>i sum. dadd sum (dmul (Fin (d ! i)) (Fin (d ! (i - lag)))))
          [lag ..< length d] (Fin 0)"

text \<open>
  \<open>computeAutocorrelation\<close> is private and only called from \<open>computeCoefficients\<close> after
  the length check, so \<open>order_\<close> is not negative here. With an empty series \<open>sum / n\<close>
  is \<open>0.0 / 0\<close>, a NaN.
\<close>

definition computeAutocorrelation :: "ARModel \<Rightarrow> ARModel" where
  "computeAutocorrelation m =
     (let n = length (data_m m);
          ac0 = resize (autocorrelation_m m) (nat (order_m m + 1)) (Fin 0)
      in m\<lparr>autocorrelation_m :=
              fold (\<lambda>lag ac. ac[lag := ddiv (lagSum (data_m m) lag) (Fin (real n))])
                   [0 ..< nat (order_m m + 1)] ac0\<rparr>)"

subsection \<open>The Levinson-Durbin loop as the code runs it\<close>

text \<open>
  One iteration of the loop over \<open>k\<close>, on the local arrays \<open>a\<close> and \<open>e\<close>. The second inner
  loop updates \<open>a\<close> in place: \<open>a[j] -= lambda * a[k - j]\<close> reads the array that earlier
  iterations of the same loop have already written.
\<close>

definition levinson_step :: "double list \<Rightarrow> nat \<Rightarrow> double list \<times> double list
    \<Rightarrow> double list \<times> double list" where
  "levinson_step r k ae =
     (let a = fst ae; e = snd ae;
          lambda0 = fold (\<lambda>j l. dadd l (dmul (a ! j) (r ! (k - j)))) [1 ..< k] (Fin 0);
          lambda = ddiv (dsub (r ! k) lambda0) (e ! (k - 1));
          a1 = a[k := lambda];
          a2 = fold (\<lambda>j b. b[j := dsub (b ! j) (dmul lambda (b ! (k - j)))]) [1 ..< k] a1;
          e1 = e[k := dmul (e ! (k - 1)) (dsub (Fin 1) (dmul lambda lambda))]
      in (a2, e1))"

text \<open>The arrays \<open>a\<close> and \<open>e\<close> before the loop, and after it has run for \<open>k = 1..p\<close>.\<close>

definition levinson_init :: "double list \<Rightarrow> nat \<Rightarrow> double list \<times> double list" where
  "levinson_init r p =
     ((replicate (p + 1) (Fin 0))[0 := Fin 1], (replicate (p + 1) (Fin 0))[0 := r ! 0])"

definition levinson :: "double list \<Rightarrow> nat \<Rightarrow> double list \<times> double list" where
  "levinson r p = fold (levinson_step r) [1 ..< p + 1] (levinson_init r p)"

text \<open>
  \<open>computeCoefficients\<close> returns \<open>false\<close> after one of two messages on the error stream,
  or \<open>true\<close> with the coefficients stored. \<open>Inl\<close> is a \<open>false\<close> with the message it wrote,
  \<open>Inr\<close> is \<open>true\<close> with the object afterwards.
  The length check compares \<open>data_.size()\<close> with \<open>static_cast<size_t>(order_)\<close>: a
  negative order becomes a value above every vector size, so the check fails for it.
  \<open>order_\<close> and the loop counters are C++ \<open>int\<close>; the model takes them as unbounded
  integers, which differs only when \<open>order_ + 1\<close> or a vector size passes \<open>2^31 - 1\<close>.
\<close>

datatype fit_error = InsufficientData | DegenerateAutocorrelation

definition storeCoefficients :: "double list \<Rightarrow> nat \<Rightarrow> double list \<Rightarrow> double list" where
  "storeCoefficients c p a = fold (\<lambda>i c. c[i := a ! (i + 1)]) [0 ..< p] (resize c p (Fin 0))"

definition computeCoefficients :: "ARModel \<Rightarrow> fit_error + ARModel" where
  "computeCoefficients m =
     (if order_m m < 0 \<or> int (length (data_m m)) < order_m m then Inl InsufficientData
      else
        let m1 = computeAutocorrelation m;
            r = autocorrelation_m m1;
            p = nat (order_m m)
        in if is_zero (r ! 0) then Inl DegenerateAutocorrelation
           else Inr (m1\<lparr>coefficients_m :=
                          storeCoefficients (coefficients_m m1) p (fst (levinson r p))\<rparr>))"

subsection \<open>Forecasting\<close>

text \<open>
  Both forecasts read \<open>coefficients_[i]\<close> for \<open>i < order_\<close>. After a successful
  \<open>computeCoefficients\<close> the vector has \<open>order_\<close> entries; on an object that was never
  fitted the read is out of range, which C++ leaves undefined and \<open>!\<close> leaves unspecified.
\<close>

definition forwardPredict :: "ARModel \<Rightarrow> double" where
  "forwardPredict m =
     (if order_m m < 0 \<or> int (length (data_m m)) < order_m m then Fin 0
      else fold (\<lambda>i prediction.
                   dadd prediction
                     (dmul (coefficients_m m ! i) (Fin (data_m m ! (length (data_m m) - 1 - i)))))
                [0 ..< nat (order_m m)] (Fin 0))"

text \<open>The dot product of one forecasting step: \<open>pred += coefficients_[i] * window[order_ - 1 - i]\<close>.\<close>

definition windowPred :: "double list \<Rightarrow> nat \<Rightarrow> double list \<Rightarrow> double" where
  "windowPred c p window =
     fold (\<lambda>i pred. dadd pred (dmul (c ! i) (window ! (p - 1 - i)))) [0 ..< p] (Fin 0)"

text \<open>
  The loop over \<open>step\<close>, with the number of iterations still to run. Each iteration ends with
  \<open>window.erase(window.begin())\<close>, which is undefined on an empty vector (order 0): the
  model has no result there.
\<close>

fun predictLoop :: "double list \<Rightarrow> nat \<Rightarrow> nat \<Rightarrow> double list \<Rightarrow> double list
    \<Rightarrow> double list option" where
  "predictLoop c p 0 predictions window = Some predictions"
| "predictLoop c p (Suc n) predictions window =
     (let pred = windowPred c p window
      in case window of
           [] \<Rightarrow> None
         | oldest # rest \<Rightarrow> predictLoop c p n (predictions @ [pred]) (rest @ [pred]))"

text \<open>
  \<open>predictions.reserve(k)\<close> converts \<open>k\<close> to \<open>size_t\<close>; for a negative \<open>k\<close> the request is
  above \<open>max_size()\<close> and \<open>reserve\<close> throws \<open>std::length_error\<close>, which nothing catches.
  \<open>None\<close> is a call that returns no value (that exception, or the undefined \<open>erase\<close>).
\<close>

definition forwardPredictSteps :: "ARModel \<Rightarrow> int \<Rightarrow> double list option" where
  "forwardPredictSteps m k =
     (if k < 0 then None
      else if order_m m < 0 \<or> int (length (data_m m)) < order_m m then Some []
      else
        let p = nat (order_m m);
            window = map Fin (drop (length (data_m m) - p) (data_m m))
        in predictLoop (coefficients_m m) p (nat k) [] window)"

section \<open>The driver (main.cpp)\<close>

subsection \<open>Error metrics\<close>

record ErrorMetrics =
  mse :: double
  rmse :: double
  mape :: double

text \<open>
  The body of the loop in \<open>computeErrors\<close>, on the pair \<open>(sumSq, sumAbsPct)\<close>. The actual
  series is input data, hence finite.
\<close>

definition errorStep :: "double list \<Rightarrow> real list \<Rightarrow> nat \<Rightarrow> double \<times> double \<Rightarrow> double \<times> double" where
  "errorStep forecast actual i acc =
     (let diff = dsub (forecast ! i) (Fin (actual ! i));
          sumSq = dadd (fst acc) (dmul diff diff);
          sumAbsPct =
            (if actual ! i \<noteq> 0
             then dadd (snd acc) (dmul (dfabs (ddiv diff (Fin (actual ! i)))) (Fin 100))
             else snd acc)
      in (sumSq, sumAbsPct))"

definition computeErrors :: "double list \<Rightarrow> real list \<Rightarrow> ErrorMetrics" where
  "computeErrors forecast actual =
     (if length forecast \<noteq> length actual \<or> forecast = []
      then \<lparr>mse = Fin 0, rmse = Fin 0, mape = Fin 0\<rparr>
      else
        let acc = fold (errorStep forecast actual) [0 ..< length forecast] (Fin 0, Fin 0);
            n = Fin (real (length forecast));
            em_mse = ddiv (fst acc) n
        in \<lparr>mse = em_mse, rmse = dsqrt em_mse, mape = ddiv (snd acc) n\<rparr>)"

subsection \<open>Differencing and integration\<close>


text \<open>
  \<open>currentPrice += forecastedDiff[i]; forecastedPrices[i] = currentPrice\<close>, for every entry
  of the forecast. The first argument is the addition that \<open>+=\<close> performs: the rounded
  \<open>fadd\<close>, or the idealised \<open>dadd\<close> in the order sweep, whose selection logic does not
  depend on the rounding. The second argument is \<open>currentPrice\<close>.
\<close>

fun integrate :: "(double \<Rightarrow> double \<Rightarrow> double) \<Rightarrow> double \<Rightarrow> double list \<Rightarrow> double list" where
  "integrate add currentPrice [] = []"
| "integrate add currentPrice (d # ds) =
     (let c = add currentPrice d in c # integrate add c ds)"

subsection \<open>Order selection\<close>

text \<open>
  The state of the loop over the candidate orders. \<open>bestMse\<close> starts as
  \<open>std::numeric_limits<double>::infinity()\<close> and holds a finite value after its first
  update: \<open>None\<close> is that initial plus infinity.
\<close>

record Sweep =
  orders :: "real list"
  mses :: "double list"
  rmses :: "double list"
  mapes :: "double list"
  bestMse :: "real option"
  bestOrder :: int
  bestForecastedPrices :: "double list"

text \<open>
  \<open>em.mse < bestMse\<close>. A non-finite \<open>em.mse\<close> is a NaN or plus infinity (it is a sum of
  squares divided by a count, never minus infinity), and neither is below any value.
\<close>

fun mseLess :: "double \<Rightarrow> real option \<Rightarrow> bool" where
  "mseLess (Fin x) None = True"
| "mseLess (Fin x) (Some b) = (x < b)"
| "mseLess NonFinite b = False"

text \<open>
  What one candidate order yields before the bookkeeping: the fit failed, or the fit
  succeeded and gave forecast prices and their metrics.
\<close>

datatype candidate = FitFailed | Scored "double list" ErrorMetrics

definition evalOrder :: "real list \<Rightarrow> real list \<Rightarrow> real \<Rightarrow> int \<Rightarrow> int \<Rightarrow> candidate option" where
  "evalOrder diffData validPrices lastTrainPrice validDays order =
     (case computeCoefficients (ARModel_init diffData order) of
        Inl err \<Rightarrow> Some FitFailed
      | Inr model \<Rightarrow>
          (case forwardPredictSteps model validDays of
             None \<Rightarrow> None
           | Some forecastedDiff \<Rightarrow>
               let forecastedPrices = integrate dadd (Fin lastTrainPrice) forecastedDiff
               in Some (Scored forecastedPrices (computeErrors forecastedPrices validPrices))))"

text \<open>The rest of the loop body: a failed fit records infinities and continues.\<close>

fun sweepStep :: "int \<Rightarrow> candidate \<Rightarrow> Sweep \<Rightarrow> Sweep" where
  "sweepStep order FitFailed st =
     st\<lparr>orders := orders st @ [real_of_int order], mses := mses st @ [NonFinite],
        rmses := rmses st @ [NonFinite], mapes := mapes st @ [NonFinite]\<rparr>"
| "sweepStep order (Scored forecastedPrices em) st =
     (let st1 = st\<lparr>orders := orders st @ [real_of_int order], mses := mses st @ [mse em],
                    rmses := rmses st @ [rmse em], mapes := mapes st @ [mape em]\<rparr>
      in if mseLess (mse em) (bestMse st1)
         then (case mse em of
                 Fin x \<Rightarrow> st1\<lparr>bestMse := Some x, bestOrder := order,
                               bestForecastedPrices := forecastedPrices\<rparr>
               | NonFinite \<Rightarrow> st1)
         else st1)"

fun sweepLoop :: "(int \<Rightarrow> candidate option) \<Rightarrow> int list \<Rightarrow> Sweep \<Rightarrow> Sweep option" where
  "sweepLoop ev [] st = Some st"
| "sweepLoop ev (order # rest) st =
     (case ev order of
        None \<Rightarrow> None
      | Some c \<Rightarrow> sweepLoop ev rest (sweepStep order c st))"

text \<open>
  The loop of \<open>main\<close> with its constants as parameters: \<open>main\<close> scans the orders 20 to
  \<open>maxOrder = 80\<close>, starts with \<open>bestOrder = 20\<close>, and forecasts \<open>validDays = 60\<close> steps.
\<close>

definition selectBestOrder :: "real list \<Rightarrow> real list \<Rightarrow> real \<Rightarrow> int \<Rightarrow> int \<Rightarrow> int \<Rightarrow> Sweep option" where
  "selectBestOrder diffData validPrices lastTrainPrice validDays firstOrder maxOrder =
     sweepLoop (evalOrder diffData validPrices lastTrainPrice validDays) [firstOrder .. maxOrder]
       \<lparr>orders = [], mses = [], rmses = [], mapes = [], bestMse = None,
        bestOrder = firstOrder, bestForecastedPrices = []\<rparr>"

text \<open>The MSE that the sweep records for an order.\<close>

definition mseOf :: "(int \<Rightarrow> candidate option) \<Rightarrow> int \<Rightarrow> double" where
  "mseOf ev order = (case ev order of Some (Scored fp em) \<Rightarrow> mse em | _ \<Rightarrow> NonFinite)"

section \<open>The recursion as the specification words it\<close>

text \<open>
  The specification's update of step \<open>k\<close> is simultaneous: every \<open>a[j] -= lambda * a[k-j]\<close>
  reads the array as it was before the update. \<open>levinson_step_ref\<close> is \<open>levinson_step\<close>
  with that one change (the reads go to the snapshot \<open>a1\<close>), and \<open>levinson_ref\<close> iterates it.
\<close>

definition levinson_step_ref :: "double list \<Rightarrow> nat \<Rightarrow> double list \<times> double list
    \<Rightarrow> double list \<times> double list" where
  "levinson_step_ref r k ae =
     (let a = fst ae; e = snd ae;
          lambda0 = fold (\<lambda>j l. dadd l (dmul (a ! j) (r ! (k - j)))) [1 ..< k] (Fin 0);
          lambda = ddiv (dsub (r ! k) lambda0) (e ! (k - 1));
          a1 = a[k := lambda];
          a2 = fold (\<lambda>j b. b[j := dsub (a1 ! j) (dmul lambda (a1 ! (k - j)))]) [1 ..< k] a1;
          e1 = e[k := dmul (e ! (k - 1)) (dsub (Fin 1) (dmul lambda lambda))]
      in (a2, e1))"

definition levinson_ref :: "double list \<Rightarrow> nat \<Rightarrow> double list \<times> double list" where
  "levinson_ref r p = fold (levinson_step_ref r) [1 ..< p + 1] (levinson_init r p)"

section \<open>Properties\<close>

subsection \<open>Loops that fill an array or add up terms\<close>

lemma length_resize: "length (resize xs n v) = n"
  by (simp add: resize_def)

lemma fold_update_upt:
  "k \<le> length xs \<Longrightarrow> fold (\<lambda>i ys. ys[i := f i]) [0 ..< k] xs = map f [0 ..< k] @ drop k xs"
proof (induction k)
  case 0
  then show ?case by simp
next
  case (Suc k)
  then have k: "k < length xs" by simp
  have "drop k xs = xs ! k # drop (Suc k) xs"
    using k by (simp add: Cons_nth_drop_Suc)
  then show ?case
    using Suc by (simp add: list_update_append)
qed

lemma fold_update_all:
  "length xs = n \<Longrightarrow> fold (\<lambda>i ys. ys[i := f i]) [0 ..< n] xs = map f [0 ..< n]"
  using fold_update_upt [of n xs f] by simp

lemma fold_dadd_Fin:
  "fold (\<lambda>i s. dadd s (Fin (g i))) xs (Fin a) = Fin (a + sum_list (map g xs))"
  by (induction xs arbitrary: a) (simp_all add: add.assoc)

lemma lagSum_eq:
  "lagSum d lag = Fin (\<Sum>i = lag ..< length d. d ! i * d ! (i - lag))"
  by (simp add: lagSum_def fold_dadd_Fin interv_sum_list_conv_sum_set_nat)

lemma autocorrelation_computed:
  "0 \<le> order_m m \<Longrightarrow>
   autocorrelation_m (computeAutocorrelation m) =
     map (\<lambda>lag. ddiv (lagSum (data_m m) lag) (Fin (real (length (data_m m)))))
         [0 ..< nat (order_m m) + 1]"
proof -
  assume "0 \<le> order_m m"
  then have n: "nat (order_m m + 1) = nat (order_m m) + 1"
    by (simp add: nat_add_distrib)
  have "length (resize (autocorrelation_m m) (nat (order_m m) + 1) (Fin 0)) = nat (order_m m) + 1"
    by (rule length_resize)
  then show ?thesis
    unfolding computeAutocorrelation_def Let_def n
    by (simp add: fold_update_all del: upt_Suc)
qed

lemma fit_autocorrelation:
  "computeCoefficients m = Inr m' \<Longrightarrow>
     autocorrelation_m m' = autocorrelation_m (computeAutocorrelation m)"
  by (auto simp: computeCoefficients_def Let_def split: if_splits)

text \<open>
  Claim C8. For a non-empty series of length \<open>n\<close> and an order \<open>p\<close> with \<open>0 \<le> p \<le> n\<close>,
  the autocorrelation vector has \<open>p + 1\<close> entries and the entry at \<open>lag\<close> is the sum of
  \<open>data[i] * data[i - lag]\<close> over \<open>i = lag, ..., n - 1\<close>, divided by \<open>n\<close>: no centring on the
  mean, and the same divisor for every lag. A successful fit stores exactly this vector.
\<close>

theorem autocorrelation_formula:
  assumes "data_m m \<noteq> []" and "0 \<le> order_m m" and "order_m m \<le> int (length (data_m m))"
  shows "length (autocorrelation_m (computeAutocorrelation m)) = nat (order_m m) + 1 \<and>
         (\<forall>lag \<le> nat (order_m m).
            autocorrelation_m (computeAutocorrelation m) ! lag =
              Fin ((\<Sum>i = lag ..< length (data_m m). data_m m ! i * data_m m ! (i - lag))
                   / real (length (data_m m)))) \<and>
         (\<forall>m'. computeCoefficients m = Inr m' \<longrightarrow>
            autocorrelation_m m' = autocorrelation_m (computeAutocorrelation m))"
proof -
  have "\<And>lag. lag \<le> nat (order_m m) \<Longrightarrow>
          map (\<lambda>lag. ddiv (lagSum (data_m m) lag) (Fin (real (length (data_m m)))))
              [0 ..< nat (order_m m) + 1] ! lag
          = ddiv (lagSum (data_m m) lag) (Fin (real (length (data_m m))))"
    by (simp del: upt_Suc)
  then show ?thesis
    using assms by (simp add: autocorrelation_computed lagSum_eq fit_autocorrelation del: upt_Suc)
qed

theorem autocorrelation_formula_witness:
  "autocorrelation_m (computeAutocorrelation (ARModel_init [1, 2, 3] 2)) ! 1 = Fin (8 / 3) \<and>
   length (autocorrelation_m (computeAutocorrelation (ARModel_init [1, 2, 3] 2))) = 3"
  using autocorrelation_formula [of "ARModel_init [1, 2, 3] 2"]
  by (simp add: ARModel_init_def numeral_3_eq_3 sum.atLeast_Suc_lessThan)

text \<open>
  Claim C2. For an order between 0 and the length of the series, \<open>computeCoefficients\<close>
  returns \<open>true\<close> exactly when the lag-0 autocorrelation it computed is not zero, and
  otherwise returns \<open>false\<close> with the zero-autocorrelation message; for a series shorter
  than the order it returns \<open>false\<close> with the not-enough-data message, before anything is
  computed.
\<close>

theorem fit_succeeds_iff:
  "(0 \<le> order_m m \<and> order_m m \<le> int (length (data_m m)) \<longrightarrow>
      ((\<exists>m'. computeCoefficients m = Inr m')
         \<longleftrightarrow> \<not> is_zero (autocorrelation_m (computeAutocorrelation m) ! 0)) \<and>
      (is_zero (autocorrelation_m (computeAutocorrelation m) ! 0)
         \<longrightarrow> computeCoefficients m = Inl DegenerateAutocorrelation)) \<and>
   (int (length (data_m m)) < order_m m \<longrightarrow> computeCoefficients m = Inl InsufficientData)"
  by (simp add: computeCoefficients_def Let_def)

theorem fit_succeeds_iff_witness:
  "(\<exists>m'. computeCoefficients (ARModel_init [1, 2, 3] 2) = Inr m') \<and>
   computeCoefficients (ARModel_init [0, 0] 1) = Inl DegenerateAutocorrelation \<and>
   computeCoefficients (ARModel_init [1] 2) = Inl InsufficientData"
proof -
  have a: "0 \<le> order_m (ARModel_init [1, 2, 3] 2) \<and>
           order_m (ARModel_init [1, 2, 3] 2) \<le> int (length (data_m (ARModel_init [1, 2, 3] 2)))"
    by (simp add: ARModel_init_def)
  have b: "\<not> is_zero (autocorrelation_m (computeAutocorrelation (ARModel_init [1, 2, 3] 2)) ! 0)"
    by code_simp
  have c: "0 \<le> order_m (ARModel_init [0, 0] 1) \<and>
           order_m (ARModel_init [0, 0] 1) \<le> int (length (data_m (ARModel_init [0, 0] 1)))"
    by (simp add: ARModel_init_def)
  have d: "is_zero (autocorrelation_m (computeAutocorrelation (ARModel_init [0, 0] 1)) ! 0)"
    by code_simp
  have e: "int (length (data_m (ARModel_init [1] 2))) < order_m (ARModel_init [1] 2)"
    by (simp add: ARModel_init_def)
  show ?thesis
    using fit_succeeds_iff [of "ARModel_init [1, 2, 3] 2"] a b
      fit_succeeds_iff [of "ARModel_init [0, 0] 1"] c d
      fit_succeeds_iff [of "ARModel_init [1] 2"] e
    by blast
qed

text \<open>
  An order below 0 is outside the data model (an order is a positive integer); the code
  rejects it through the unsigned comparison of the length check.
\<close>

lemma negative_order_fails:
  "order_m m < 0 \<Longrightarrow> computeCoefficients m = Inl InsufficientData"
  by (simp add: computeCoefficients_def)

subsection \<open>A fitted model\<close>

lemma length_storeCoefficients: "length (storeCoefficients c p a) = p"
proof -
  have "length (resize c p (Fin 0)) = p" by (rule length_resize)
  then show ?thesis
    unfolding storeCoefficients_def by (simp add: fold_update_all del: upt_Suc)
qed

lemma fitted_model:
  assumes "computeCoefficients m = Inr m'"
  shows "data_m m' = data_m m" and "order_m m' = order_m m"
    and "0 \<le> order_m m" and "order_m m \<le> int (length (data_m m))"
    and "length (coefficients_m m') = nat (order_m m)"
  using assms
  by (auto simp: computeCoefficients_def computeAutocorrelation_def Let_def
        length_storeCoefficients split: if_splits)

subsection \<open>Forecasts\<close>

lemma predictLoop_extends:
  "predictLoop c p n preds w = Some r \<Longrightarrow> \<exists>rest. r = preds @ rest \<and> length rest = n"
proof (induction n arbitrary: preds w)
  case 0
  then show ?case by simp
next
  case (Suc n)
  then show ?case
    by (cases w) (fastforce simp: Let_def)+
qed

lemma predictLoop_returns:
  "w \<noteq> [] \<Longrightarrow> \<exists>r. predictLoop c p n preds w = Some r"
proof (induction n arbitrary: preds w)
  case 0
  then show ?case by simp
next
  case (Suc n)
  then show ?case
    by (cases w) (simp_all add: Let_def)
qed

lemma windowPred_trailing:
  assumes "p \<le> length d"
  shows "windowPred c p (map Fin (drop (length d - p) d)) =
         fold (\<lambda>i prediction. dadd prediction (dmul (c ! i) (Fin (d ! (length d - 1 - i)))))
              [0 ..< p] (Fin 0)"
proof -
  have "\<And>i. i < p \<Longrightarrow> map Fin (drop (length d - p) d) ! (p - 1 - i) = Fin (d ! (length d - 1 - i))"
    using assms by (simp add: nth_append)
  then show ?thesis
    unfolding windowPred_def by (intro fold_cong) (simp_all del: upt_Suc)
qed

text \<open>
  Claim C5. On a fitted model (of order at least 1, the orders the data model admits) and
  for every horizon \<open>k \<ge> 1\<close>, \<open>forwardPredictSteps(k)\<close> returns \<open>k\<close> values and the first
  is the value of \<open>forwardPredict()\<close>: the first window holds the trailing observations, so
  both run the same accumulation on the same operands.
\<close>

theorem first_step_is_forwardPredict:
  assumes "computeCoefficients m0 = Inr m" and "1 \<le> order_m m" and "1 \<le> k"
  shows "\<exists>ps. forwardPredictSteps m k = Some ps \<and> length ps = nat k \<and> ps ! 0 = forwardPredict m"
proof -
  let ?d = "data_m m" and ?p = "nat (order_m m)"
  let ?w = "map Fin (drop (length ?d - ?p) ?d)"
  have len: "?p \<le> length ?d" and pos: "0 < ?p"
    using fitted_model [OF assms(1)] assms(2) by simp_all
  have guard: "\<not> (order_m m < 0 \<or> int (length ?d) < order_m m)"
    using len assms(2) by simp
  obtain n where n: "nat k = Suc n"
    using assms(3) by (cases "nat k") simp_all
  have w: "?w \<noteq> []" using len pos by simp
  then obtain oldest rest where cons: "?w = oldest # rest" by (cases ?w) simp_all
  have "rest @ [windowPred (coefficients_m m) ?p ?w] \<noteq> []" by simp
  from predictLoop_returns [OF this]
  obtain r where r: "predictLoop (coefficients_m m) ?p n [windowPred (coefficients_m m) ?p ?w]
                       (rest @ [windowPred (coefficients_m m) ?p ?w]) = Some r"
    by blast
  from predictLoop_extends [OF r]
  obtain tl where tl: "r = [windowPred (coefficients_m m) ?p ?w] @ tl" "length tl = n"
    by blast
  have steps: "forwardPredictSteps m k = Some r"
    using guard assms(3) n cons r by (simp add: forwardPredictSteps_def Let_def)
  have "forwardPredict m = windowPred (coefficients_m m) ?p ?w"
    using guard by (simp add: forwardPredict_def windowPred_trailing [OF len])
  with steps tl n show ?thesis by simp
qed

theorem first_step_is_forwardPredict_witness:
  "\<exists>ps. forwardPredictSteps \<lparr>data_m = [1, 2, 3], order_m = 2,
             coefficients_m = [Fin (2 / 3), Fin (- (1 / 6))],
             autocorrelation_m = [Fin (14 / 3), Fin (8 / 3), Fin 1]\<rparr> 3 = Some ps \<and>
        length ps = 3 \<and> ps ! 0 = Fin (5 / 3)"
proof -
  let ?m = "\<lparr>data_m = [1, 2, 3], order_m = 2,
             coefficients_m = [Fin (2 / 3), Fin (- (1 / 6))],
             autocorrelation_m = [Fin (14 / 3), Fin (8 / 3), Fin 1]\<rparr>"
  have fit: "computeCoefficients (ARModel_init [1, 2, 3] 2) = Inr ?m"
    by code_simp
  have p: "forwardPredict ?m = Fin (5 / 3)"
    by code_simp
  show ?thesis
    using first_step_is_forwardPredict [OF fit, of 3] p by simp
qed

text \<open>
  Claim C10. When the series is shorter than the order, \<open>forwardPredict\<close> returns \<open>0.0\<close>
  and nothing else tells the caller (\<open>forwardPredictSteps\<close> returns the empty vector
  there); a fitted model with enough data can return the same \<open>0.0\<close> as its forecast, so
  the value alone does not reveal the failure.
\<close>

theorem forwardPredict_short_series:
  "(int (length (data_m m)) < order_m m \<longrightarrow> forwardPredict m = Fin 0) \<and>
   (int (length (data_m m)) < order_m m \<and> 0 \<le> k \<longrightarrow> forwardPredictSteps m k = Some []) \<and>
   (\<exists>m0 m'. computeCoefficients m0 = Inr m' \<and> \<not> int (length (data_m m')) < order_m m' \<and>
      forwardPredict m' = Fin 0)"
proof -
  let ?m = "\<lparr>data_m = [1, 0], order_m = 1, coefficients_m = [Fin 0],
             autocorrelation_m = [Fin (1 / 2), Fin 0]\<rparr>"
  have "computeCoefficients (ARModel_init [1, 0] 1) = Inr ?m"
    by code_simp
  moreover have "forwardPredict ?m = Fin 0"
    by code_simp
  moreover have "\<not> int (length (data_m ?m)) < order_m ?m"
    by simp
  ultimately have ex: "\<exists>m0 m'. computeCoefficients m0 = Inr m' \<and>
      \<not> int (length (data_m m')) < order_m m' \<and> forwardPredict m' = Fin 0"
    by blast
  have "int (length (data_m m)) < order_m m \<longrightarrow> forwardPredict m = Fin 0"
    by (simp add: forwardPredict_def)
  moreover have "int (length (data_m m)) < order_m m \<and> 0 \<le> k \<longrightarrow>
      forwardPredictSteps m k = Some []"
    by (simp add: forwardPredictSteps_def)
  ultimately show ?thesis using ex by blast
qed

theorem forwardPredict_short_series_witness:
  "forwardPredict (ARModel_init [7] 2) = Fin 0 \<and>
   forwardPredictSteps (ARModel_init [7] 2) 3 = Some []"
proof -
  have "int (length (data_m (ARModel_init [7] 2))) < order_m (ARModel_init [7] 2)"
    by (simp add: ARModel_init_def)
  moreover have "(0::int) \<le> 3" by simp
  ultimately show ?thesis
    using forwardPredict_short_series [of "ARModel_init [7] 2" 3] by blast
qed

subsection \<open>Error metrics\<close>

lemma errorStep_fold:
  "k \<le> length f \<Longrightarrow>
   fold (errorStep (map Fin f) actual) [0 ..< k] (Fin 0, Fin 0) =
     (Fin (\<Sum>i < k. (f ! i - actual ! i)\<^sup>2),
      Fin (\<Sum>i < k. if actual ! i \<noteq> 0 then \<bar>(f ! i - actual ! i) / actual ! i\<bar> * 100 else 0))"
proof (induction k)
  case 0
  then show ?case by simp
next
  case (Suc k)
  then show ?case
    by (simp add: errorStep_def Let_def power2_eq_square)
qed

lemma computeErrors_finite:
  assumes "length f = length actual" and "f \<noteq> []"
  shows "computeErrors (map Fin f) actual =
     \<lparr>mse = Fin ((\<Sum>i < length f. (f ! i - actual ! i)\<^sup>2) / real (length f)),
      rmse = Fin (sqrt ((\<Sum>i < length f. (f ! i - actual ! i)\<^sup>2) / real (length f))),
      mape = Fin ((\<Sum>i < length f. if actual ! i \<noteq> 0
                     then \<bar>(f ! i - actual ! i) / actual ! i\<bar> * 100 else 0) / real (length f))\<rparr>"
proof -
  have "0 \<le> (\<Sum>i < length f. (f ! i - actual ! i)\<^sup>2) / real (length f)"
    by (simp add: sum_nonneg)
  moreover have "actual \<noteq> []"
    using assms by auto
  ultimately show ?thesis
    using assms by (simp add: computeErrors_def Let_def errorStep_fold not_less del: upt_Suc)
qed

text \<open>
  Claim C9. \<open>computeErrors\<close> returns the record of three zeros when the two series differ
  in length or the forecast is empty; it is an ordinary return value, the function has no
  other way out. For series of equal non-zero length (and a finite forecast) the MSE is the
  mean of the squared differences and the RMSE is its square root.
\<close>

theorem computeErrors_default_and_mse:
  "(length forecast \<noteq> length actual \<or> forecast = [] \<longrightarrow>
      computeErrors forecast actual = \<lparr>mse = Fin 0, rmse = Fin 0, mape = Fin 0\<rparr>) \<and>
   (length f = length actual \<and> f \<noteq> [] \<longrightarrow>
      mse (computeErrors (map Fin f) actual) =
        Fin ((\<Sum>i < length f. (f ! i - actual ! i)\<^sup>2) / real (length f)) \<and>
      rmse (computeErrors (map Fin f) actual) =
        Fin (sqrt ((\<Sum>i < length f. (f ! i - actual ! i)\<^sup>2) / real (length f))))"
  by (simp add: computeErrors_finite) (simp add: computeErrors_def)

theorem computeErrors_default_and_mse_witness:
  "computeErrors [Fin 1, Fin 2] [1] = \<lparr>mse = Fin 0, rmse = Fin 0, mape = Fin 0\<rparr> \<and>
   computeErrors [] [] = \<lparr>mse = Fin 0, rmse = Fin 0, mape = Fin 0\<rparr> \<and>
   mse (computeErrors (map Fin [3, 5]) [1, 3]) = Fin 4 \<and>
   rmse (computeErrors (map Fin [3, 5]) [1, 3]) = Fin 2"
proof -
  have "(\<Sum>i < length [3, 5 :: real]. ([3, 5] ! i - [1, 3 :: real] ! i)\<^sup>2) / real (length [3, 5 :: real]) = 4"
    by (simp add: lessThan_Suc)
  then show ?thesis
    using computeErrors_default_and_mse [where forecast = "[Fin 1, Fin 2]" and actual = "[1]"]
      computeErrors_default_and_mse [where forecast = "[]" and actual = "[]"]
      computeErrors_default_and_mse [where f = "[3, 5]" and actual = "[1, 3]"]
    by simp
qed

text \<open>
  Claim C7. For series of equal non-zero length \<open>n\<close> (and a finite forecast) the MAPE is
  \<open>100 / n\<close> times the sum of \<open>|forecast[i] - actual[i]| / |actual[i]|\<close> over exactly the
  indices with \<open>actual[i] \<noteq> 0\<close>; the divisor is the full length. So the MAPE is never
  negative, and it is 0 when every actual value is 0.
\<close>

theorem mape_formula:
  assumes "length f = length actual" and "f \<noteq> []"
  shows "mape (computeErrors (map Fin f) actual) =
           Fin (100 / real (length f) *
                (\<Sum>i \<in> {i. i < length f \<and> actual ! i \<noteq> 0}. \<bar>f ! i - actual ! i\<bar> / \<bar>actual ! i\<bar>)) \<and>
         (\<exists>x. mape (computeErrors (map Fin f) actual) = Fin x \<and> 0 \<le> x) \<and>
         ((\<forall>i < length f. actual ! i = 0) \<longrightarrow> mape (computeErrors (map Fin f) actual) = Fin 0)"
proof -
  let ?n = "length f"
  let ?t = "\<lambda>i. \<bar>f ! i - actual ! i\<bar> / \<bar>actual ! i\<bar>"
  let ?S = "\<Sum>i \<in> {i. i < ?n \<and> actual ! i \<noteq> 0}. ?t i"
  have "(\<Sum>i < ?n. if actual ! i \<noteq> 0 then \<bar>(f ! i - actual ! i) / actual ! i\<bar> * 100 else 0)
        = (\<Sum>i < ?n. if i \<in> {i. actual ! i \<noteq> 0} then ?t i * 100 else 0)"
    by (intro sum.cong) (simp_all add: abs_divide)
  also have "\<dots> = (\<Sum>i \<in> {..< ?n} \<inter> {i. actual ! i \<noteq> 0}. ?t i * 100)"
    by (rule sum.inter_restrict [symmetric]) simp
  also have "{..< ?n} \<inter> {i. actual ! i \<noteq> 0} = {i. i < ?n \<and> actual ! i \<noteq> 0}"
    by auto
  also have "(\<Sum>i \<in> {i. i < ?n \<and> actual ! i \<noteq> 0}. ?t i * 100) = ?S * 100"
    by (simp add: sum_distrib_right)
  finally have eq: "(\<Sum>i < ?n. if actual ! i \<noteq> 0
        then \<bar>(f ! i - actual ! i) / actual ! i\<bar> * 100 else 0) = ?S * 100" .
  have m: "mape (computeErrors (map Fin f) actual) = Fin (?S * 100 / real ?n)"
    unfolding computeErrors_finite [OF assms] eq by simp
  have nonneg: "0 \<le> ?S"
    by (intro sum_nonneg) simp
  have zero: "(\<forall>i < ?n. actual ! i = 0) \<longrightarrow> ?S = 0"
    by (auto intro: sum.neutral)
  show ?thesis
    using m nonneg zero by (auto simp: field_simps)
qed

theorem mape_formula_witness:
  "mape (computeErrors (map Fin [3, 5, 1]) [0, 4, 2]) = Fin 25"
proof -
  have s: "{i. i < length [3, 5, 1 :: real] \<and> [0, 4, 2 :: real] ! i \<noteq> 0} = {1, 2}"
    by (auto simp: less_Suc_eq nth_Cons')
  have "100 / real (length [3, 5, 1 :: real]) *
          (\<Sum>i \<in> {i. i < length [3, 5, 1 :: real] \<and> [0, 4, 2 :: real] ! i \<noteq> 0}.
              \<bar>[3, 5, 1 :: real] ! i - [0, 4, 2] ! i\<bar> / \<bar>[0, 4, 2 :: real] ! i\<bar>) = 25"
    unfolding s by simp
  then show ?thesis
    using mape_formula [of "[3, 5, 1]" "[0, 4, 2]"] by simp
qed

subsection \<open>Rounding to binary64\<close>


lemma rne_nearest: "\<bar>of_int (rne y) - y\<bar> \<le> 1 / 2"
  unfolding rne_def Let_def by (auto simp: abs_le_iff)





text \<open>A finite result of rounding is within half a unit in the last place of the exact value.\<close>

lemma round_double_nearest:
  assumes "x \<noteq> 0" and "round_double x = Fin r"
  shows "\<bar>r - x\<bar> \<le> 2 powi (max (exponent2 x) (- 1022) - 52) / 2"
proof -
  define q :: real where "q = 2 powi (max (exponent2 x) (- 1022) - 52)"
  have q: "0 < q" by (simp add: q_def)
  have r: "r = of_int (rne (x / q)) * q"
    using assms by (simp add: round_double_def Let_def q_def split: if_splits)
  have "(of_int (rne (x / q)) - x / q) * q = r - x"
    using q by (simp add: r field_simps)
  then have "\<bar>r - x\<bar> = \<bar>of_int (rne (x / q)) - x / q\<bar> * \<bar>q\<bar>"
    by (metis abs_mult)
  then have "\<bar>r - x\<bar> = \<bar>of_int (rne (x / q)) - x / q\<bar> * q"
    using q by simp
  also have "\<dots> \<le> 1 / 2 * q"
    using q rne_nearest [of "x / q"] by (intro mult_right_mono) simp_all
  finally show ?thesis by (simp add: q_def)
qed


subsection \<open>Differencing and integration\<close>








subsection \<open>The order sweep\<close>

lemma forwardPredictSteps_returns:
  assumes "computeCoefficients m0 = Inr m" and "1 \<le> order_m m" and "0 \<le> k"
  shows "\<exists>ps. forwardPredictSteps m k = Some ps"
proof -
  have "nat (order_m m) \<le> length (data_m m)" and "0 < nat (order_m m)"
    using fitted_model [OF assms(1)] assms(2) by simp_all
  then have "map Fin (drop (length (data_m m) - nat (order_m m)) (data_m m)) \<noteq> []"
    by simp
  from predictLoop_returns [OF this] show ?thesis
    using assms(3) by (simp add: forwardPredictSteps_def Let_def)
qed

lemma evalOrder_returns:
  assumes "1 \<le> order" and "0 \<le> validDays"
  shows "\<exists>c. evalOrder diffData validPrices lastTrainPrice validDays order = Some c"
proof (cases "computeCoefficients (ARModel_init diffData order)")
  case (Inl err)
  then show ?thesis by (simp add: evalOrder_def)
next
  case (Inr model)
  have "order_m model = order"
    using fitted_model(2) [OF Inr] by (simp add: ARModel_init_def)
  with forwardPredictSteps_returns [OF Inr _ assms(2)] assms(1)
  obtain ps where "forwardPredictSteps model validDays = Some ps" by auto
  with Inr show ?thesis by (simp add: evalOrder_def Let_def)
qed

lemma sweepLoop_returns:
  "\<forall>order \<in> set os. \<exists>c. ev order = Some c \<Longrightarrow> \<exists>st'. sweepLoop ev os st = Some st'"
  by (induction os arbitrary: st) auto

lemma sweepStep_cases:
  "(bestOrder (sweepStep order c st) = bestOrder st \<and> bestMse (sweepStep order c st) = bestMse st) \<or>
   (\<exists>fp em x. c = Scored fp em \<and> mse em = Fin x \<and> mseLess (Fin x) (bestMse st) \<and>
      bestOrder (sweepStep order c st) = order \<and> bestMse (sweepStep order c st) = Some x)"
proof (cases c)
  case FitFailed
  then show ?thesis by simp
next
  case (Scored fp em)
  then show ?thesis
    by (cases "mse em") (simp_all add: Let_def)
qed

lemma sweepStep_bound:
  "mse em = Fin y \<Longrightarrow> \<exists>b. bestMse (sweepStep order (Scored fp em) st) = Some b \<and> b \<le> y"
  by (cases "bestMse st") (simp_all add: Let_def)

lemma sweepStep_decreases:
  "bestMse st = Some b \<Longrightarrow> \<exists>b1. bestMse (sweepStep order c st) = Some b1 \<and> b1 \<le> b"
  using sweepStep_cases [of order c st] by auto

lemma sweepLoop_decreases:
  "sweepLoop ev os st = Some st' \<Longrightarrow> bestMse st = Some b \<Longrightarrow>
     \<exists>b'. bestMse st' = Some b' \<and> b' \<le> b"
proof (induction os arbitrary: st b)
  case Nil
  then show ?case by simp
next
  case (Cons order rest)
  then obtain c where c: "ev order = Some c" and
      rest: "sweepLoop ev rest (sweepStep order c st) = Some st'"
    by (auto split: option.splits)
  from sweepStep_decreases [OF Cons.prems(2), of order c]
  obtain b1 where b1: "bestMse (sweepStep order c st) = Some b1" "b1 \<le> b" by blast
  from Cons.IH [OF rest b1(1)] b1(2) show ?case by force
qed

lemma mseOf_Fin:
  "mseOf ev order = Fin y \<Longrightarrow> \<exists>fp em. ev order = Some (Scored fp em) \<and> mse em = Fin y"
  by (auto simp: mseOf_def split: option.splits candidate.splits)

lemma sweepLoop_bound:
  "sweepLoop ev os st = Some st' \<Longrightarrow> order \<in> set os \<Longrightarrow> mseOf ev order = Fin y \<Longrightarrow>
     \<exists>b'. bestMse st' = Some b' \<and> b' \<le> y"
proof (induction os arbitrary: st)
  case Nil
  then show ?case by simp
next
  case (Cons o1 rest)
  then obtain c where c: "ev o1 = Some c" and
      rest: "sweepLoop ev rest (sweepStep o1 c st) = Some st'"
    by (auto split: option.splits)
  show ?case
  proof (cases "order = o1")
    case True
    with mseOf_Fin [OF Cons.prems(3)] c
    obtain fp em where "c = Scored fp em" "mse em = Fin y" by auto
    with sweepStep_bound [of em y o1 fp st]
    obtain b where "bestMse (sweepStep o1 c st) = Some b" "b \<le> y" by auto
    with sweepLoop_decreases [OF rest] show ?thesis by force
  next
    case False
    with Cons.prems(2) have "order \<in> set rest" by simp
    from Cons.IH [OF rest this Cons.prems(3)] show ?thesis .
  qed
qed

lemma sweepLoop_best:
  "sweepLoop ev os st = Some st' \<Longrightarrow>
     (bestOrder st' = bestOrder st \<and> bestMse st' = bestMse st) \<or>
     (bestOrder st' \<in> set os \<and> (\<exists>x. mseOf ev (bestOrder st') = Fin x \<and> bestMse st' = Some x))"
proof (induction os arbitrary: st)
  case Nil
  then show ?case by simp
next
  case (Cons o1 rest)
  then obtain c where c: "ev o1 = Some c" and
      rest: "sweepLoop ev rest (sweepStep o1 c st) = Some st'"
    by (auto split: option.splits)
  from Cons.IH [OF rest] sweepStep_cases [of o1 c st] c show ?case
    by (auto simp: mseOf_def)
qed

lemma sweepLoop_winner:
  "sweepLoop ev os st = Some st' \<Longrightarrow> sorted_wrt (<) os \<Longrightarrow> bestOrder st' \<in> set os \<Longrightarrow>
   bestOrder st' \<noteq> bestOrder st \<Longrightarrow>
     \<exists>x. mseOf ev (bestOrder st') = Fin x \<and> mseLess (Fin x) (bestMse st) \<and>
         (\<forall>i \<in> set os. i < bestOrder st' \<longrightarrow> (\<forall>y. mseOf ev i = Fin y \<longrightarrow> x < y))"
proof (induction os arbitrary: st)
  case Nil
  then show ?case by simp
next
  case (Cons o1 rest)
  let ?st1 = "\<lambda>c. sweepStep o1 c st"
  from Cons.prems(1) obtain c where c: "ev o1 = Some c" and
      rest: "sweepLoop ev rest (?st1 c) = Some st'"
    by (auto split: option.splits)
  have above: "\<forall>i \<in> set rest. o1 < i" and sorted: "sorted_wrt (<) rest"
    using Cons.prems(2) by simp_all
  show ?case
  proof (cases "bestOrder st' = o1")
    case True
    then have "bestOrder st' \<notin> set rest" using above by auto
    with sweepLoop_best [OF rest] have "bestOrder st' = bestOrder (?st1 c)" by auto
    with True Cons.prems(4) have "bestOrder (?st1 c) \<noteq> bestOrder st" by simp
    with sweepStep_cases [of o1 c st]
    obtain fp em x where u: "c = Scored fp em" "mse em = Fin x" "mseLess (Fin x) (bestMse st)"
      by auto
    have "mseOf ev o1 = Fin x" using c u by (simp add: mseOf_def)
    moreover have "\<forall>i \<in> set (o1 # rest). \<not> i < o1" using above by auto
    ultimately show ?thesis using True u(3) by auto
  next
    case False
    with Cons.prems(3) have mem: "bestOrder st' \<in> set rest" by simp
    then have gt: "o1 < bestOrder st'" using above by simp
    have "bestOrder (?st1 c) = bestOrder st \<or> bestOrder (?st1 c) = o1"
      using sweepStep_cases [of o1 c st] by auto
    with False Cons.prems(4) have ne: "bestOrder st' \<noteq> bestOrder (?st1 c)" by auto
    from Cons.IH [OF rest sorted mem ne]
    obtain x where x: "mseOf ev (bestOrder st') = Fin x" "mseLess (Fin x) (bestMse (?st1 c))"
        "\<forall>i \<in> set rest. i < bestOrder st' \<longrightarrow> (\<forall>y. mseOf ev i = Fin y \<longrightarrow> x < y)"
      by blast
    have less: "mseLess (Fin x) (bestMse st)"
    proof (cases "bestMse st")
      case None
      then show ?thesis by simp
    next
      case (Some b)
      from sweepStep_decreases [OF Some, of o1 c] x(2) Some show ?thesis by auto
    qed
    have first: "\<forall>y. mseOf ev o1 = Fin y \<longrightarrow> x < y"
    proof (intro allI impI)
      fix y assume y: "mseOf ev o1 = Fin y"
      with mseOf_Fin [OF y] c obtain fp em where "c = Scored fp em" "mse em = Fin y" by auto
      with sweepStep_bound [of em y o1 fp st]
      obtain b where "bestMse (?st1 c) = Some b" "b \<le> y" by auto
      with x(2) show "x < y" by simp
    qed
    show ?thesis using x(1,3) less first by auto
  qed
qed

text \<open>
  Claim C3. The sweep scans the candidate orders upwards (from an order of at least 1, with
  a horizon that is not negative) and replaces the best record only for a strictly lower
  MSE. So of two orders that record the same MSE the higher one is never \<open>bestOrder\<close>, and
  when an order reaches the lowest MSE of the sweep, strictly below every lower order, that
  order is \<open>bestOrder\<close> and its MSE is \<open>bestMse\<close>.
\<close>

theorem sweep_tie_break:
  assumes "1 \<le> firstOrder" and "0 \<le> validDays"
  shows "\<exists>st. selectBestOrder diffData validPrices lastTrainPrice validDays firstOrder maxOrder = Some st \<and>
     (\<forall>i j. firstOrder \<le> i \<and> i < j \<and> j \<le> maxOrder \<and>
         mseOf (evalOrder diffData validPrices lastTrainPrice validDays) i =
         mseOf (evalOrder diffData validPrices lastTrainPrice validDays) j
         \<longrightarrow> bestOrder st \<noteq> j) \<and>
     (\<forall>i x. firstOrder \<le> i \<and> i \<le> maxOrder \<and>
         mseOf (evalOrder diffData validPrices lastTrainPrice validDays) i = Fin x \<and>
         (\<forall>j y. firstOrder \<le> j \<and> j \<le> maxOrder \<and>
            mseOf (evalOrder diffData validPrices lastTrainPrice validDays) j = Fin y
            \<longrightarrow> x \<le> y \<and> (j < i \<longrightarrow> x < y))
         \<longrightarrow> bestOrder st = i \<and> bestMse st = Some x)"
proof -
  let ?ev = "evalOrder diffData validPrices lastTrainPrice validDays"
  let ?os = "[firstOrder .. maxOrder]"
  let ?st0 = "\<lparr>orders = [], mses = [], rmses = [], mapes = [], bestMse = None,
               bestOrder = firstOrder, bestForecastedPrices = []\<rparr>"
  have "\<forall>order \<in> set ?os. \<exists>c. ?ev order = Some c"
    using evalOrder_returns [OF _ assms(2)] assms(1) by auto
  from sweepLoop_returns [OF this]
  obtain st where st: "sweepLoop ?ev ?os ?st0 = Some st" by blast
  have sorted: "sorted_wrt (<) ?os"
    by (simp add: sorted_wrt_upto)
  have tie: "bestOrder st \<noteq> j"
    if "firstOrder \<le> i" "i < j" "j \<le> maxOrder" "mseOf ?ev i = mseOf ?ev j" for i j
  proof
    assume best: "bestOrder st = j"
    have "bestOrder st \<in> set ?os" "bestOrder st \<noteq> bestOrder ?st0" "i \<in> set ?os"
      using best that by simp_all
    from sweepLoop_winner [OF st sorted this(1,2)] this(3) best that(2,4)
    show False by auto
  qed
  have least: "bestOrder st = i \<and> bestMse st = Some x"
    if i: "firstOrder \<le> i" "i \<le> maxOrder" "mseOf ?ev i = Fin x"
      and low: "\<forall>j y. firstOrder \<le> j \<and> j \<le> maxOrder \<and> mseOf ?ev j = Fin y
                  \<longrightarrow> x \<le> y \<and> (j < i \<longrightarrow> x < y)" for i x
  proof -
    have "i \<in> set ?os" using i by simp
    from sweepLoop_bound [OF st this i(3)]
    obtain b where b: "bestMse st = Some b" "b \<le> x" by blast
    with sweepLoop_best [OF st]
    have w: "bestOrder st \<in> set ?os" "mseOf ?ev (bestOrder st) = Fin b" by auto
    with low have "x \<le> b" "bestOrder st < i \<longrightarrow> x < b" by auto
    with b have eq: "b = x" "\<not> bestOrder st < i" by auto
    have "\<not> i < bestOrder st"
    proof
      assume lt: "i < bestOrder st"
      have "bestOrder st \<le> maxOrder" using w(1) by simp
      moreover have "mseOf ?ev i = mseOf ?ev (bestOrder st)" using i(3) w(2) eq(1) by simp
      ultimately show False using tie [OF i(1) lt] by simp
    qed
    with eq(2) have "bestOrder st = i" by simp
    with eq(1) b(1) show ?thesis by simp
  qed
  show ?thesis
    unfolding selectBestOrder_def using st tie least by blast
qed

theorem sweep_tie_break_witness:
  "\<exists>st. selectBestOrder [1, 0, 0, - 1] [5, 5] 5 2 1 2 = Some st \<and> bestOrder st = 1 \<and>
        mseOf (evalOrder [1, 0, 0, - 1] [5, 5] 5 2) 1 = Fin 0 \<and>
        mseOf (evalOrder [1, 0, 0, - 1] [5, 5] 5 2) 2 = Fin 0"
proof -
  let ?ev = "evalOrder [1, 0, 0, - 1] [5, 5] 5 2"
  let ?ac = "[Fin (1 / 2), Fin 0, Fin 0]"
  have f1: "computeCoefficients (ARModel_init [1, 0, 0, - 1] 1) =
      Inr \<lparr>data_m = [1, 0, 0, - 1], order_m = 1, coefficients_m = [Fin 0],
           autocorrelation_m = [Fin (1 / 2), Fin 0]\<rparr>"
    by code_simp
  have p1: "forwardPredictSteps \<lparr>data_m = [1, 0, 0, - 1], order_m = 1, coefficients_m = [Fin 0],
           autocorrelation_m = [Fin (1 / 2), Fin 0]\<rparr> 2 = Some [Fin 0, Fin 0]"
    by code_simp
  have f2: "computeCoefficients (ARModel_init [1, 0, 0, - 1] 2) =
      Inr \<lparr>data_m = [1, 0, 0, - 1], order_m = 2, coefficients_m = [Fin 0, Fin 0],
           autocorrelation_m = [Fin (1 / 2), Fin 0, Fin 0]\<rparr>"
    by code_simp
  have p2: "forwardPredictSteps \<lparr>data_m = [1, 0, 0, - 1], order_m = 2,
           coefficients_m = [Fin 0, Fin 0],
           autocorrelation_m = [Fin (1 / 2), Fin 0, Fin 0]\<rparr> 2 = Some [Fin 0, Fin 0]"
    by code_simp
  have c: "mse (computeErrors [Fin 5, Fin 5] [5, 5]) = Fin 0"
    using computeErrors_finite [of "[5, 5]" "[5, 5]"] by (simp add: lessThan_Suc)
  have m1: "mseOf ?ev 1 = Fin 0"
    by (simp add: mseOf_def evalOrder_def Let_def f1 p1 c)
  have m2: "mseOf ?ev 2 = Fin 0"
    by (simp add: mseOf_def evalOrder_def Let_def f2 p2 c)
  have "(1::int) \<le> 1" "(0::int) \<le> 2" by simp_all
  from sweep_tie_break [OF this, of "[1, 0, 0, - 1]" "[5, 5]" 5 2]
  obtain st where st: "selectBestOrder [1, 0, 0, - 1] [5, 5] 5 2 1 2 = Some st"
    and tie: "\<forall>i j. 1 \<le> i \<and> i < j \<and> j \<le> 2 \<and> mseOf ?ev i = mseOf ?ev j \<longrightarrow> bestOrder st \<noteq> j"
    and least: "\<forall>i x. 1 \<le> i \<and> i \<le> 2 \<and> mseOf ?ev i = Fin x \<and>
         (\<forall>j y. 1 \<le> j \<and> j \<le> 2 \<and> mseOf ?ev j = Fin y \<longrightarrow> x \<le> y \<and> (j < i \<longrightarrow> x < y))
         \<longrightarrow> bestOrder st = i \<and> bestMse st = Some x"
    by blast
  have "\<forall>j y. 1 \<le> j \<and> j \<le> 2 \<and> mseOf ?ev j = Fin y \<longrightarrow> 0 \<le> y \<and> (j < 1 \<longrightarrow> 0 < y)"
  proof (intro allI impI)
    fix j :: int and y
    assume a: "1 \<le> j \<and> j \<le> 2 \<and> mseOf ?ev j = Fin y"
    then have "j = 1 \<or> j = 2" by auto
    with a m1 m2 have "y = 0" by auto
    with a show "0 \<le> y \<and> (j < 1 \<longrightarrow> 0 < y)" by simp
  qed
  with least [rule_format, of 1 0] m1 have "bestOrder st = 1" by simp
  then show ?thesis using st m1 m2 by simp
qed

subsection \<open>The in-place update against the simultaneous one\<close>

text \<open>
  Up to order 2 the inner loop runs at most once per step and reads an entry it has not
  written, so the code and the simultaneous recursion coincide.
\<close>

lemma levinson_agree_upto_2:
  "p \<le> 2 \<Longrightarrow> levinson r p = levinson_ref r p"
proof -
  assume "p \<le> 2"
  then consider "p = 0" | "p = 1" | "p = 2" by linarith
  then show ?thesis
    by cases (simp_all add: levinson_def levinson_ref_def levinson_step_def levinson_step_ref_def
        numeral_2_eq_2 Let_def)
qed

text \<open>
  Claim C1 says that the update of step \<open>k\<close> reads pre-update values, so that the fitted
  coefficients are those of the simultaneous recursion. The code updates in place, and
  from order 3 on the results part: for the series \<open>[-2, -2, 2, 1, -1, 1, 0, -1]\<close> and order
  3 (every intermediate value is a dyadic rational, exact in a double) the code stores
  \<open>[1/8, -17/32, 1/4]\<close> where the simultaneous recursion gives \<open>[1/8, -1/2, 1/4]\<close>. At
  \<open>k = 3\<close>, \<open>j = 2\<close> reads \<open>a[1]\<close>, which \<open>j = 1\<close> has just overwritten.
\<close>

theorem inplace_update_differs:
  "computeCoefficients (ARModel_init [- 2, - 2, 2, 1, - 1, 1, 0, - 1] 3) =
     Inr \<lparr>data_m = [- 2, - 2, 2, 1, - 1, 1, 0, - 1], order_m = 3,
          coefficients_m = [Fin (1 / 8), Fin (- (17 / 32)), Fin (1 / 4)],
          autocorrelation_m = [Fin 2, Fin 0, Fin (- 1), Fin (3 / 8)]\<rparr> \<and>
   fst (levinson [Fin 2, Fin 0, Fin (- 1), Fin (3 / 8)] 3) =
     [Fin 1, Fin (1 / 8), Fin (- (17 / 32)), Fin (1 / 4)] \<and>
   fst (levinson_ref [Fin 2, Fin 0, Fin (- 1), Fin (3 / 8)] 3) =
     [Fin 1, Fin (1 / 8), Fin (- (1 / 2)), Fin (1 / 4)] \<and>
   fst (levinson [Fin 2, Fin 0, Fin (- 1), Fin (3 / 8)] 3) \<noteq>
     fst (levinson_ref [Fin 2, Fin 0, Fin (- 1), Fin (3 / 8)] 3)"
  by code_simp

subsection \<open>The error terms on a smooth series\<close>

lemma code_step1:
  "levinson_step [Fin (36 / 5), Fin 6, Fin (17 / 5), Fin (6 / 5), Fin (1 / 5), Fin 0] 1
     ([Fin 1, Fin 0, Fin 0, Fin 0, Fin 0, Fin 0],
      [Fin (36 / 5), Fin 0, Fin 0, Fin 0, Fin 0, Fin 0]) =
     ([Fin 1, Fin (5 / 6), Fin 0, Fin 0, Fin 0, Fin 0],
      [Fin (36 / 5), Fin (11 / 5), Fin 0, Fin 0, Fin 0, Fin 0])"
  by (simp add: levinson_step_def Let_def upt_rec)

lemma code_step2:
  "levinson_step [Fin (36 / 5), Fin 6, Fin (17 / 5), Fin (6 / 5), Fin (1 / 5), Fin 0] 2
     ([Fin 1, Fin (5 / 6), Fin 0, Fin 0, Fin 0, Fin 0],
      [Fin (36 / 5), Fin (11 / 5), Fin 0, Fin 0, Fin 0, Fin 0]) =
     ([Fin 1, Fin (95 / 66), Fin (- (8 / 11)), Fin 0, Fin 0, Fin 0],
      [Fin (36 / 5), Fin (11 / 5), Fin (57 / 55), Fin 0, Fin 0, Fin 0])"
  by (simp add: levinson_step_def Let_def upt_rec)

lemma code_step3:
  "levinson_step [Fin (36 / 5), Fin 6, Fin (17 / 5), Fin (6 / 5), Fin (1 / 5), Fin 0] 3
     ([Fin 1, Fin (95 / 66), Fin (- (8 / 11)), Fin 0, Fin 0, Fin 0],
      [Fin (36 / 5), Fin (11 / 5), Fin (57 / 55), Fin 0, Fin 0, Fin 0]) =
     ([Fin 1, Fin (653 / 342), Fin (- (2523155 / 1286604)), Fin (221 / 342), Fin 0, Fin 0],
      [Fin (36 / 5), Fin (11 / 5), Fin (57 / 55), Fin (6193 / 10260), Fin 0, Fin 0])"
  by (simp add: levinson_step_def Let_def upt_rec)

lemma code_step4:
  "levinson_step [Fin (36 / 5), Fin 6, Fin (17 / 5), Fin (6 / 5), Fin (1 / 5), Fin 0] 4
     ([Fin 1, Fin (653 / 342), Fin (- (2523155 / 1286604)), Fin (221 / 342), Fin 0, Fin 0],
      [Fin (36 / 5), Fin (11 / 5), Fin (57 / 55), Fin (6193 / 10260), Fin 0, Fin 0]) =
     ([Fin 1, Fin (770700830 / 663994881), Fin (388346355515 / 1248974371161),
      Fin (- (3602058467807839 / 5156598853733382)), Fin (4498663 / 3883011), Fin 0],
      [Fin (36 / 5), Fin (11 / 5), Fin (57 / 55), Fin (6193 / 10260),
       Fin (- (1290048590362 / 6244871855805)), Fin 0])"
  by (simp add: levinson_step_def Let_def upt_rec)

lemma code_step5:
  "levinson_step [Fin (36 / 5), Fin 6, Fin (17 / 5), Fin (6 / 5), Fin (1 / 5), Fin 0] 5
     ([Fin 1, Fin (770700830 / 663994881), Fin (388346355515 / 1248974371161),
      Fin (- (3602058467807839 / 5156598853733382)), Fin (4498663 / 3883011), Fin 0],
      [Fin (36 / 5), Fin (11 / 5), Fin (57 / 55), Fin (6193 / 10260),
       Fin (- (1290048590362 / 6244871855805)), Fin 0]) =
     ([Fin 1, Fin (- (295999491325623277152622523 / 10609669987752877942715892)),
      Fin (4407835157464763667561035910539387 / 247184791612885741999339071064872),
      Fin (- (589787715579142094140020544476408702820111410984295 / 1316550845017826353157672917395262245097321980768)),
      Fin (13203247896963817047045950138766155031111565 / 18836339534475041163755436715866776883216),
      Fin (400787261303786271 / 15978541840223732)],
      [Fin (36 / 5), Fin (11 / 5), Fin (57 / 55), Fin (6193 / 10260),
       Fin (- (1290048590362 / 6244871855805)),
       Fin (160375115024049675651427616632077617 / 1235923958064428709996695355324360)])"
  by (simp add: levinson_step_def Let_def upt_rec)

lemma ref_step1:
  "levinson_step_ref [Fin (36 / 5), Fin 6, Fin (17 / 5), Fin (6 / 5), Fin (1 / 5), Fin 0] 1
     ([Fin 1, Fin 0, Fin 0, Fin 0, Fin 0, Fin 0],
      [Fin (36 / 5), Fin 0, Fin 0, Fin 0, Fin 0, Fin 0]) =
     ([Fin 1, Fin (5 / 6), Fin 0, Fin 0, Fin 0, Fin 0],
      [Fin (36 / 5), Fin (11 / 5), Fin 0, Fin 0, Fin 0, Fin 0])"
  by (simp add: levinson_step_ref_def Let_def upt_rec)

lemma ref_step2:
  "levinson_step_ref [Fin (36 / 5), Fin 6, Fin (17 / 5), Fin (6 / 5), Fin (1 / 5), Fin 0] 2
     ([Fin 1, Fin (5 / 6), Fin 0, Fin 0, Fin 0, Fin 0],
      [Fin (36 / 5), Fin (11 / 5), Fin 0, Fin 0, Fin 0, Fin 0]) =
     ([Fin 1, Fin (95 / 66), Fin (- (8 / 11)), Fin 0, Fin 0, Fin 0],
      [Fin (36 / 5), Fin (11 / 5), Fin (57 / 55), Fin 0, Fin 0, Fin 0])"
  by (simp add: levinson_step_ref_def Let_def upt_rec)

lemma ref_step3:
  "levinson_step_ref [Fin (36 / 5), Fin 6, Fin (17 / 5), Fin (6 / 5), Fin (1 / 5), Fin 0] 3
     ([Fin 1, Fin (95 / 66), Fin (- (8 / 11)), Fin 0, Fin 0, Fin 0],
      [Fin (36 / 5), Fin (11 / 5), Fin (57 / 55), Fin 0, Fin 0, Fin 0]) =
     ([Fin 1, Fin (653 / 342), Fin (- (179 / 108)), Fin (221 / 342), Fin 0, Fin 0],
      [Fin (36 / 5), Fin (11 / 5), Fin (57 / 55), Fin (6193 / 10260), Fin 0, Fin 0])"
  by (simp add: levinson_step_ref_def Let_def upt_rec)

lemma ref_step4:
  "levinson_step_ref [Fin (36 / 5), Fin 6, Fin (17 / 5), Fin (6 / 5), Fin (1 / 5), Fin 0] 4
     ([Fin 1, Fin (653 / 342), Fin (- (179 / 108)), Fin (221 / 342), Fin 0, Fin 0],
      [Fin (36 / 5), Fin (11 / 5), Fin (57 / 55), Fin (6193 / 10260), Fin 0, Fin 0]) =
     ([Fin 1, Fin (14034 / 6193), Fin (- (15931 / 6193)), Fin (10530 / 6193),
      Fin (- (3419 / 6193)), Fin 0],
      [Fin (36 / 5), Fin (11 / 5), Fin (57 / 55), Fin (6193 / 10260), Fin (12994 / 30965), Fin 0])"
  by (simp add: levinson_step_ref_def Let_def upt_rec)

lemma ref_step5:
  "levinson_step_ref [Fin (36 / 5), Fin 6, Fin (17 / 5), Fin (6 / 5), Fin (1 / 5), Fin 0] 5
     ([Fin 1, Fin (14034 / 6193), Fin (- (15931 / 6193)), Fin (10530 / 6193),
      Fin (- (3419 / 6193)), Fin 0],
      [Fin (36 / 5), Fin (11 / 5), Fin (57 / 55), Fin (6193 / 10260), Fin (12994 / 30965), Fin 0]) =
     ([Fin 1, Fin (16134 / 6497), Fin (- (21059 / 6497)), Fin (198 / 73), Fin (- (9379 / 6497)),
      Fin (2556 / 6497)],
      [Fin (36 / 5), Fin (11 / 5), Fin (57 / 55), Fin (6193 / 10260), Fin (12994 / 30965),
       Fin (11522 / 32485)])"
  by (simp add: levinson_step_ref_def Let_def upt_rec)

lemma orders_1_to_5: "[1 ..< 5 + 1] = [1, 2, 3, 4, 5 :: nat]"
  by (simp add: upt_rec)

lemma init_5:
  "levinson_init [Fin (36 / 5), Fin 6, Fin (17 / 5), Fin (6 / 5), Fin (1 / 5), Fin 0] 5 =
     ([Fin 1, Fin 0, Fin 0, Fin 0, Fin 0, Fin 0],
      [Fin (36 / 5), Fin 0, Fin 0, Fin 0, Fin 0, Fin 0])"
  by (simp add: levinson_init_def numeral_eq_Suc)

lemma code_errors_5:
  "snd (levinson [Fin (36 / 5), Fin 6, Fin (17 / 5), Fin (6 / 5), Fin (1 / 5), Fin 0] 5) =
     [Fin (36 / 5), Fin (11 / 5), Fin (57 / 55), Fin (6193 / 10260),
      Fin (- (1290048590362 / 6244871855805)),
      Fin (160375115024049675651427616632077617 / 1235923958064428709996695355324360)]"
  unfolding levinson_def orders_1_to_5
  by (simp only: List.fold_simps init_5 code_step1 code_step2 code_step3 code_step4 code_step5 snd_conv)

lemma ref_errors_5:
  "snd (levinson_ref [Fin (36 / 5), Fin 6, Fin (17 / 5), Fin (6 / 5), Fin (1 / 5), Fin 0] 5) =
     [Fin (36 / 5), Fin (11 / 5), Fin (57 / 55), Fin (6193 / 10260), Fin (12994 / 30965),
      Fin (11522 / 32485)]"
  unfolding levinson_ref_def orders_1_to_5
  by (simp only: List.fold_simps init_5 ref_step1 ref_step2 ref_step3 ref_step4 ref_step5 snd_conv)

text \<open>
  Claim C6 says that in every successful fit the error terms never increase,
  \<open>e[k] \<le> e[k - 1]\<close>. The code breaks it: for the series \<open>[1, 3, 4, 3, 1]\<close> and order 5 the
  fit succeeds, \<open>e[4]\<close> is negative and \<open>e[5]\<close> is positive, above \<open>e[4]\<close> and above
  \<open>e[0]\<close>. The recursion with the simultaneous update gives a decreasing sequence on the
  same input; the two part at \<open>k = 4\<close>, the first step that reads coefficients written by
  an in-place update with \<open>k \<ge> 3\<close>.
\<close>

theorem error_sequence_increases:
  "autocorrelation_m (computeAutocorrelation (ARModel_init [1, 3, 4, 3, 1] 5)) =
     [Fin (36 / 5), Fin 6, Fin (17 / 5), Fin (6 / 5), Fin (1 / 5), Fin 0] \<and>
   (\<exists>m. computeCoefficients (ARModel_init [1, 3, 4, 3, 1] 5) = Inr m) \<and>
   snd (levinson [Fin (36 / 5), Fin 6, Fin (17 / 5), Fin (6 / 5), Fin (1 / 5), Fin 0] 5) =
     [Fin (36 / 5), Fin (11 / 5), Fin (57 / 55), Fin (6193 / 10260),
      Fin (- (1290048590362 / 6244871855805)),
      Fin (160375115024049675651427616632077617 / 1235923958064428709996695355324360)] \<and>
   snd (levinson_ref [Fin (36 / 5), Fin 6, Fin (17 / 5), Fin (6 / 5), Fin (1 / 5), Fin 0] 5) =
     [Fin (36 / 5), Fin (11 / 5), Fin (57 / 55), Fin (6193 / 10260), Fin (12994 / 30965),
      Fin (11522 / 32485)] \<and>
   (\<exists>e4 e5. snd (levinson [Fin (36 / 5), Fin 6, Fin (17 / 5), Fin (6 / 5), Fin (1 / 5), Fin 0] 5) ! 4 = Fin e4 \<and>
      snd (levinson [Fin (36 / 5), Fin 6, Fin (17 / 5), Fin (6 / 5), Fin (1 / 5), Fin 0] 5) ! 5 = Fin e5 \<and>
      e4 < e5)"
proof -
  have ac: "autocorrelation_m (computeAutocorrelation (ARModel_init [1, 3, 4, 3, 1] 5)) =
     [Fin (36 / 5), Fin 6, Fin (17 / 5), Fin (6 / 5), Fin (1 / 5), Fin 0]"
    by code_simp
  have "order_m (ARModel_init [1, 3, 4, 3, 1] 5) = 5"
    and "data_m (ARModel_init [1, 3, 4, 3, 1] 5) = [1, 3, 4, 3, 1]"
    by (simp_all add: ARModel_init_def)
  then have "\<exists>m. computeCoefficients (ARModel_init [1, 3, 4, 3, 1] 5) = Inr m"
    by (simp add: computeCoefficients_def Let_def ac)
  moreover have "\<exists>e4 e5.
      snd (levinson [Fin (36 / 5), Fin 6, Fin (17 / 5), Fin (6 / 5), Fin (1 / 5), Fin 0] 5) ! 4 = Fin e4 \<and>
      snd (levinson [Fin (36 / 5), Fin 6, Fin (17 / 5), Fin (6 / 5), Fin (1 / 5), Fin 0] 5) ! 5 = Fin e5 \<and>
      e4 < e5"
  proof (intro exI conjI)
    show "snd (levinson [Fin (36 / 5), Fin 6, Fin (17 / 5), Fin (6 / 5), Fin (1 / 5), Fin 0] 5) ! 4 =
        Fin (- (1290048590362 / 6244871855805))"
      by (simp add: code_errors_5)
    show "snd (levinson [Fin (36 / 5), Fin 6, Fin (17 / 5), Fin (6 / 5), Fin (1 / 5), Fin 0] 5) ! 5 =
        Fin (160375115024049675651427616632077617 / 1235923958064428709996695355324360)"
      by (simp add: code_errors_5)
    show "- (1290048590362 / 6244871855805) <
        (160375115024049675651427616632077617 / 1235923958064428709996695355324360 :: real)"
      by simp
  qed
  ultimately show ?thesis
    using ac code_errors_5 ref_errors_5 by blast
qed

end
